theory Spec2Isabelle
  imports Complex_Main "HOL-Library.Word" "HOL-Library.Multiset"
begin

unbundle bit_operations_syntax

section \<open>Data model\<close>

text \<open>
  The module \<^verbatim>\<open>adetailer/mask.py\<close> post-processes detections: bounding
  boxes with one mask each. Masks are single-channel 8-bit PIL images (values 0 or 255),
  so \<^verbatim>\<open>np.array(mask)\<close> is a two-dimensional array of unsigned bytes and all
  numpy arithmetic on it is arithmetic modulo 256. Python's \<^verbatim>\<open>int\<close> is
  \<^typ>\<open>int\<close>; its \<^verbatim>\<open>float\<close> is an ordered type with the operations as
  parameters (see below). Every \<^verbatim>\<open>raise\<close> of the source and of the library calls
  it makes is a value \<open>Inl e\<close>.
\<close>

type_synonym u8 = "8 word"

datatype error =
  RuntimeError | ValueError | IndexError | AttributeError | ZeroDivisionError
  | TypeError | CvError

text \<open>
  A numpy array of shape (height, width) is the list of its rows. A PIL image carries
  its \<^verbatim>\<open>size\<close>, which is (width, height), and its pixel rows.
\<close>

type_synonym 'p ndarray = "'p list list"

record 'p image =
  size_im :: "nat \<times> nat"
  rows :: "'p ndarray"

type_synonym mask = "u8 image"
type_synonym rgb = "u8 \<times> u8 \<times> u8"

definition np_shape :: "'p ndarray \<Rightarrow> nat \<times> nat" where
  "np_shape arr = (length arr, case arr of [] \<Rightarrow> 0 | r # _ \<Rightarrow> length r)"

text \<open>\<^verbatim>\<open>np.array(img)\<close> and \<^verbatim>\<open>Image.fromarray(arr)\<close>.\<close>

definition np_array :: "'p image \<Rightarrow> 'p ndarray" where
  "np_array img = rows img"

definition fromarray :: "'p ndarray \<Rightarrow> 'p image" where
  "fromarray arr = \<lparr>size_im = (snd (np_shape arr), fst (np_shape arr)), rows = arr\<rparr>"

text \<open>
  An image is well formed when its rows agree with its size; a mask of the data model
  has a positive extent as well.
\<close>

definition wf_image :: "'p image \<Rightarrow> bool" where
  "wf_image img \<longleftrightarrow>
     length (rows img) = snd (size_im img) \<and>
     list_all (\<lambda>r. length r = fst (size_im img)) (rows img)"

definition is_mask :: "mask \<Rightarrow> bool" where
  "is_mask img \<longleftrightarrow> wf_image img \<and> 0 < fst (size_im img) \<and> 0 < snd (size_im img)"

section \<open>Subtracting masks\<close>

text \<open>
  numpy's binary operators broadcast: two extents are compatible when they are equal or
  one of them is 1, and anything else raises \<^verbatim>\<open>ValueError\<close>.
\<close>

definition broadcast_dim :: "nat \<Rightarrow> nat \<Rightarrow> nat option" where
  "broadcast_dim d1 d2 =
     (if d1 = d2 then Some d1 else if d1 = 1 then Some d2
      else if d2 = 1 then Some d1 else None)"

definition np_binary :: "('p \<Rightarrow> 'p \<Rightarrow> 'p) \<Rightarrow> 'p ndarray \<Rightarrow> 'p ndarray \<Rightarrow> error + 'p ndarray" where
  "np_binary f a b =
     (let (h1, w1) = np_shape a; (h2, w2) = np_shape b in
      case broadcast_dim h1 h2 of
        None \<Rightarrow> Inl ValueError
      | Some h \<Rightarrow>
          (case broadcast_dim w1 w2 of
             None \<Rightarrow> Inl ValueError
           | Some w \<Rightarrow>
               Inr (map (\<lambda>i. map (\<lambda>j.
                      f (a ! (if h1 = 1 then 0 else i) ! (if w1 = 1 then 0 else j))
                        (b ! (if h2 = 1 then 0 else i) ! (if w2 = 1 then 0 else j)))
                    [0..<w]) [0..<h])))"

text \<open>\<^verbatim>\<open>arr1 - arr2\<close> on \<^verbatim>\<open>uint8\<close> arrays: the difference wraps around.\<close>

definition np_subtract :: "u8 ndarray \<Rightarrow> u8 ndarray \<Rightarrow> error + u8 ndarray" where
  "np_subtract a b = np_binary (\<lambda>x y. x - y) a b"

text \<open>\<^verbatim>\<open>np.clip(arr, lo, hi)\<close>, elementwise, in the array's own type.\<close>

definition np_clip :: "u8 ndarray \<Rightarrow> u8 \<Rightarrow> u8 \<Rightarrow> u8 ndarray" where
  "np_clip arr lo hi = map (map (\<lambda>x. min (max x lo) hi)) arr"

definition subtract_masks :: "mask \<Rightarrow> mask \<Rightarrow> error + mask" where
  "subtract_masks mask1 mask2 =
     (let arr1 = np_array mask1; arr2 = np_array mask2 in
      case np_subtract arr1 arr2 of
        Inl e \<Rightarrow> Inl e
      | Inr d \<Rightarrow> Inr (fromarray (np_clip d 0 255)))"

text \<open>The spec's reading of the same operation: the exact integer difference, clamped.\<close>

definition clamp_spec :: "int \<Rightarrow> int" where
  "clamp_spec d = max 0 (min 255 d)"

section \<open>Merging and inverting masks\<close>

text \<open>
  \<^verbatim>\<open>cv2.bitwise_or\<close> of two arrays wants operands of one shape, or one operand
  that is a 1x1 array, which it takes as a scalar and combines with every pixel of the
  other; it raises \<^verbatim>\<open>cv2.error\<close> otherwise.
\<close>

definition cv2_bitwise_or :: "u8 ndarray \<Rightarrow> u8 ndarray \<Rightarrow> error + u8 ndarray" where
  "cv2_bitwise_or a b =
     (if np_shape a = np_shape b then Inr (map2 (map2 (\<lambda>x y. x OR y)) a b)
      else if np_shape b = (1, 1) then Inr (map (map (\<lambda>x. x OR b ! 0 ! 0)) a)
      else if np_shape a = (1, 1) then Inr (map (map (\<lambda>y. a ! 0 ! 0 OR y)) b)
      else Inl CvError)"

text \<open>
  \<^verbatim>\<open>functools.reduce(f, xs)\<close> without an initial value: a left fold that starts
  at the first element, \<^verbatim>\<open>TypeError\<close> on the empty list.
\<close>

fun fold_err :: "('a \<Rightarrow> 'a \<Rightarrow> error + 'a) \<Rightarrow> 'a \<Rightarrow> 'a list \<Rightarrow> error + 'a" where
  "fold_err f acc [] = Inr acc"
| "fold_err f acc (x # xs) =
     (case f acc x of Inl e \<Rightarrow> Inl e | Inr acc' \<Rightarrow> fold_err f acc' xs)"

fun reduce :: "('a \<Rightarrow> 'a \<Rightarrow> error + 'a) \<Rightarrow> 'a list \<Rightarrow> error + 'a" where
  "reduce f [] = Inl TypeError"
| "reduce f (x # xs) = fold_err f x xs"

definition mask_merge :: "mask list \<Rightarrow> error + mask list" where
  "mask_merge masks =
     (let arrs = map np_array masks in
      case reduce cv2_bitwise_or arrs of
        Inl e \<Rightarrow> Inl e
      | Inr arr \<Rightarrow> Inr [fromarray arr])"

text \<open>\<^verbatim>\<open>ImageChops.invert\<close> on an 8-bit image: every pixel \<open>p\<close> becomes \<open>255 - p\<close>.\<close>

definition ImageChops_invert :: "mask \<Rightarrow> mask" where
  "ImageChops_invert m = m\<lparr>rows := map (map (\<lambda>p. 255 - p)) (rows m)\<rparr>"

definition mask_invert :: "mask list \<Rightarrow> mask list" where
  "mask_invert masks = map ImageChops_invert masks"

text \<open>
  \<^verbatim>\<open>MergeInvert\<close> is an \<^verbatim>\<open>IntEnum\<close>: its members are integers and compare
  as such, and the mode argument is any integer, a member, or a string.
\<close>

definition MergeInvert_NONE :: int where "MergeInvert_NONE = 0"
definition MergeInvert_MERGE :: int where "MergeInvert_MERGE = 1"
definition MergeInvert_MERGE_INVERT :: int where "MergeInvert_MERGE_INVERT = 2"
definition MergeInvert_SUBTRACT :: int where "MergeInvert_SUBTRACT = 3"

datatype mode_arg = ModeInt int | ModeStr string

text \<open>
  Modelled from the spec: the table \<^verbatim>\<open>MASK_MERGE_INVERT\<close> of
  \<^verbatim>\<open>adetailer.args\<close>, which is not among the sources. The spec lists the
  recognised aliases in order, the index being the integer mode.
\<close>

definition MASK_MERGE_INVERT :: "string list" where
  "MASK_MERGE_INVERT = [''None'', ''Merge'', ''Merge and Invert'', ''Subtract'']"

text \<open>\<^verbatim>\<open>xs.index(x)\<close>: the first position of \<open>x\<close>, \<^verbatim>\<open>ValueError\<close> when absent.\<close>

fun list_index :: "'a list \<Rightarrow> 'a \<Rightarrow> error + int" where
  "list_index [] x = Inl ValueError"
| "list_index (y # ys) x =
     (if y = x then Inr 0
      else case list_index ys x of Inl e \<Rightarrow> Inl e | Inr i \<Rightarrow> Inr (i + 1))"

text \<open>The first statement of \<^verbatim>\<open>mask_merge_invert\<close>: a string mode is looked up.\<close>

fun resolve_mode :: "mode_arg \<Rightarrow> error + int" where
  "resolve_mode (ModeInt i) = Inr i"
| "resolve_mode (ModeStr s) = list_index MASK_MERGE_INVERT s"

definition mask_merge_invert :: "mask list \<Rightarrow> mode_arg \<Rightarrow> error + mask list" where
  "mask_merge_invert masks mode =
     (case resolve_mode mode of
        Inl e \<Rightarrow> Inl e
      | Inr m \<Rightarrow>
          if m = MergeInvert_NONE \<or> masks = [] then Inr masks
          else if m = MergeInvert_MERGE then mask_merge masks
          else if m = MergeInvert_MERGE_INVERT then
            (case mask_merge masks of
               Inl e \<Rightarrow> Inl e
             | Inr merged \<Rightarrow> Inr (mask_invert merged))
          else if m = MergeInvert_SUBTRACT then
            (if length masks \<noteq> 2 then Inr masks
             else case subtract_masks (masks ! 0) (masks ! 1) of
                    Inl e \<Rightarrow> Inl e
                  | Inr r \<Rightarrow> Inr [r])
          else Inl RuntimeError)"

section \<open>Floats\<close>

text \<open>
  Python's \<^verbatim>\<open>float\<close> is the IEEE double, whose arithmetic rounds. The model
  does not fix that arithmetic. The type \<open>'f\<close> stands for the float values the module
  meets, without NaN, in their order (the two zeros compare equal and count as one
  value), and the operations the module applies to floats are the fields of a record
  that every function on bounding boxes takes as its first argument. What is proved of
  these functions holds for every such arithmetic, that of the doubles included.
\<close>

record 'f float_ops =
  float_add :: "'f \<Rightarrow> 'f \<Rightarrow> 'f"
  float_sub :: "'f \<Rightarrow> 'f \<Rightarrow> 'f"
  float_mul :: "'f \<Rightarrow> 'f \<Rightarrow> 'f"
  float_truediv :: "'f \<Rightarrow> 'f \<Rightarrow> 'f"
  float_neg :: "'f \<Rightarrow> 'f"
  float_of_int :: "int \<Rightarrow> 'f"
  int_truediv :: "int \<Rightarrow> int \<Rightarrow> 'f"
  math_dist :: "'f \<times> 'f \<Rightarrow> 'f \<times> 'f \<Rightarrow> 'f"

text \<open>
  \<open>float_of_int\<close> is the conversion of an \<^verbatim>\<open>int\<close> operand in a mixed operation,
  \<open>int_truediv\<close> the division \<^verbatim>\<open>/\<close> of two \<^verbatim>\<open>int\<close>s, and \<open>math_dist\<close> the
  Euclidean distance \<^verbatim>\<open>math.dist\<close> of two points of the plane.
\<close>

section \<open>Predictions\<close>

text \<open>
  A bounding box is documented as the list \<^verbatim>\<open>[x1, y1, x2, y2]\<close>; the model takes
  the four coordinates as a tuple.
\<close>

type_synonym 'f bbox = "'f \<times> 'f \<times> 'f \<times> 'f"

text \<open>
  Modelled from the spec: the class \<^verbatim>\<open>PredictOutput\<close> of
  \<^verbatim>\<open>adetailer.common\<close>, which is not among the sources. It holds the bounding
  boxes, one mask for each, the confidences, and the optional preview image, of which the
  functions below read the size only.
\<close>

record 'f PredictOutput =
  bboxes :: "'f bbox list"
  masks :: "mask list"
  confidences :: "'f list"
  preview :: "rgb image option"

fun bbox_area :: "'f float_ops \<Rightarrow> 'f bbox \<Rightarrow> 'f" where
  "bbox_area fl (x1, y1, x2, y2) = float_mul fl (float_sub fl x2 x1) (float_sub fl y2 y1)"

text \<open>
  \<^verbatim>\<open>[xs[i] for i in idx]\<close> for indices that are not negative:
  \<^verbatim>\<open>IndexError\<close> at the first index out of range.
\<close>

fun getitems :: "'a list \<Rightarrow> nat list \<Rightarrow> error + 'a list" where
  "getitems xs [] = Inr []"
| "getitems xs (i # idx) =
     (if i < length xs
      then (case getitems xs idx of Inl e \<Rightarrow> Inl e | Inr ys \<Rightarrow> Inr (xs ! i # ys))
      else Inl IndexError)"

text \<open>
  The last three lines of each of the three operations on predictions:
  \<^verbatim>\<open>pred.bboxes = [pred.bboxes[i] for i in idx]\<close>, the same for the masks, and
  \<^verbatim>\<open>return pred\<close>. The source updates the object it was given; the model
  returns the updated record.
\<close>

definition select_items :: "'f PredictOutput \<Rightarrow> nat list \<Rightarrow> error + 'f PredictOutput" where
  "select_items pred idx =
     (case getitems (bboxes pred) idx of
        Inl e \<Rightarrow> Inl e
      | Inr bs \<Rightarrow>
          (case getitems (masks pred) idx of
             Inl e \<Rightarrow> Inl e
           | Inr ms \<Rightarrow> Inr (pred\<lparr>bboxes := bs, masks := ms\<rparr>)))"

section \<open>Sorting bounding boxes\<close>

text \<open>\<^verbatim>\<open>SortBy\<close> is an \<^verbatim>\<open>IntEnum\<close> as well.\<close>

definition SortBy_NONE :: int where "SortBy_NONE = 0"
definition SortBy_LEFT_TO_RIGHT :: int where "SortBy_LEFT_TO_RIGHT = 1"
definition SortBy_CENTER_TO_EDGE :: int where "SortBy_CENTER_TO_EDGE = 2"
definition SortBy_AREA :: int where "SortBy_AREA = 3"

fun key_left_to_right :: "'f bbox \<Rightarrow> 'f" where
  "key_left_to_right (x1, y1, x2, y2) = x1"

fun key_center_to_edge :: "'f float_ops \<Rightarrow> 'f \<times> 'f \<Rightarrow> 'f bbox \<Rightarrow> 'f" where
  "key_center_to_edge fl center (x1, y1, x2, y2) =
     (let bbox_center = (float_truediv fl (float_add fl x1 x2) (float_of_int fl 2),
                         float_truediv fl (float_add fl y1 y2) (float_of_int fl 2))
      in math_dist fl center bbox_center)"

definition key_area :: "'f float_ops \<Rightarrow> 'f bbox \<Rightarrow> 'f" where
  "key_area fl bbox = float_neg fl (bbox_area fl bbox)"

text \<open>
  Python's \<^verbatim>\<open>sorted(xs, key=f)\<close> is a stable sort. The stable sort of a list is
  unique, so the stable insertion sort \<^const>\<open>sort_key\<close> computes it.
\<close>

definition py_sorted :: "('a \<Rightarrow> 'f :: linorder) \<Rightarrow> 'a list \<Rightarrow> 'a list" where
  "py_sorted key xs = sort_key key xs"

text \<open>
  The \<^verbatim>\<open>if\<close>/\<^verbatim>\<open>elif\<close> chain of \<^verbatim>\<open>sort_bboxes\<close> that picks the key. The
  order is any integer or a member of \<^verbatim>\<open>SortBy\<close>. Reading the size of an absent
  preview raises \<^verbatim>\<open>AttributeError\<close>.
\<close>

definition select_key ::
  "'f float_ops \<Rightarrow> 'f PredictOutput \<Rightarrow> int \<Rightarrow> error + ('f bbox \<Rightarrow> 'f)" where
  "select_key fl pred order =
     (if order = SortBy_LEFT_TO_RIGHT then Inr key_left_to_right
      else if order = SortBy_CENTER_TO_EDGE then
        (case preview pred of
           None \<Rightarrow> Inl AttributeError
         | Some img \<Rightarrow>
             (let (width, height) = size_im img;
                  center = (int_truediv fl (int width) 2, int_truediv fl (int height) 2)
              in Inr (key_center_to_edge fl center)))
      else if order = SortBy_AREA then Inr (key_area fl)
      else Inl RuntimeError)"

definition sort_bboxes ::
  "('f :: linorder) float_ops \<Rightarrow> 'f PredictOutput \<Rightarrow> int \<Rightarrow> error + 'f PredictOutput" where
  "sort_bboxes fl pred order =
     (if order = SortBy_NONE \<or> length (bboxes pred) \<le> 1 then Inr pred
      else case select_key fl pred order of
             Inl e \<Rightarrow> Inl e
           | Inr key \<Rightarrow>
               (let items = length (bboxes pred);
                    idx = py_sorted (\<lambda>i. key (bboxes pred ! i)) [0..<items]
                in select_items pred idx))"

section \<open>Filtering by area\<close>

text \<open>
  The area, a float, is divided by the original area, an \<^verbatim>\<open>int\<close>: dividing by 0
  raises \<^verbatim>\<open>ZeroDivisionError\<close>.
\<close>

definition is_in_ratio ::
  "('f :: linorder) float_ops \<Rightarrow> 'f bbox \<Rightarrow> 'f \<Rightarrow> 'f \<Rightarrow> nat \<Rightarrow> error + bool" where
  "is_in_ratio fl bbox low high orig_area =
     (let area = bbox_area fl bbox in
      if orig_area = 0 then Inl ZeroDivisionError
      else Inr (low \<le> float_truediv fl area (float_of_int fl (int orig_area)) \<and>
                float_truediv fl area (float_of_int fl (int orig_area)) \<le> high))"

text \<open>\<^verbatim>\<open>[i for i in idx if p(i)]\<close>, where \<open>p\<close> may raise.\<close>

fun select_idx :: "(nat \<Rightarrow> error + bool) \<Rightarrow> nat list \<Rightarrow> error + nat list" where
  "select_idx p [] = Inr []"
| "select_idx p (i # idx) =
     (case p i of
        Inl e \<Rightarrow> Inl e
      | Inr b \<Rightarrow>
          (case select_idx p idx of
             Inl e \<Rightarrow> Inl e
           | Inr js \<Rightarrow> Inr (if b then i # js else js)))"

definition filter_by_ratio ::
  "('f :: linorder) float_ops \<Rightarrow> 'f PredictOutput \<Rightarrow> 'f \<Rightarrow> 'f \<Rightarrow> error + 'f PredictOutput" where
  "filter_by_ratio fl pred low high =
     (if bboxes pred = [] then Inr pred
      else case preview pred of
             None \<Rightarrow> Inl AttributeError
           | Some img \<Rightarrow>
               (let (w, h) = size_im img;
                    orig_area = w * h;
                    items = length (bboxes pred)
                in case select_idx (\<lambda>i. is_in_ratio fl (bboxes pred ! i) low high orig_area)
                          [0..<items] of
                     Inl e \<Rightarrow> Inl e
                   | Inr idx \<Rightarrow> select_items pred idx))"

text \<open>
  \<^verbatim>\<open>np.argsort(areas)\<close> returns the indices that sort \<open>areas\<close> in ascending order.
  Its default algorithm is not stable, so the order of the indices of equal areas is
  not fixed; \<^verbatim>\<open>filter_k_largest\<close> therefore takes the function as a parameter, and
  \<open>is_argsort\<close> says what every such function returns. \<open>stable_argsort\<close> is one of them.
\<close>

definition is_argsort :: "('f :: linorder) list \<Rightarrow> nat list \<Rightarrow> bool" where
  "is_argsort areas idx \<longleftrightarrow>
     sort idx = [0..<length areas] \<and> sorted (map (\<lambda>i. areas ! i) idx)"

definition stable_argsort :: "('f :: linorder) list \<Rightarrow> nat list" where
  "stable_argsort areas = sort_key (\<lambda>i. areas ! i) [0..<length areas]"

text \<open>The slice \<^verbatim>\<open>idx[-k:]\<close> for \<open>k \<noteq> 0\<close>.\<close>

definition last_k :: "'a list \<Rightarrow> int \<Rightarrow> 'a list" where
  "last_k xs k =
     (if 0 < k then drop (length xs - nat k) xs else drop (nat (- k)) xs)"

definition filter_k_largest ::
  "'f float_ops \<Rightarrow> ('f list \<Rightarrow> nat list) \<Rightarrow> 'f PredictOutput \<Rightarrow> int \<Rightarrow> error + 'f PredictOutput" where
  "filter_k_largest fl np_argsort pred k =
     (if bboxes pred = [] \<or> k = 0 then Inr pred
      else let areas = map (bbox_area fl) (bboxes pred);
               idx = last_k (np_argsort areas) k
           in select_items pred idx)"

section \<open>Dilation, erosion and offset\<close>

text \<open>
  \<^verbatim>\<open>cv2.getStructuringElement(cv2.MORPH_RECT, (value, value))\<close>: a square of ones of
  side \<open>value\<close>.
\<close>

definition getStructuringElement_RECT :: "nat \<times> nat \<Rightarrow> u8 ndarray" where
  "getStructuringElement_RECT ksize = replicate (snd ksize) (replicate (fst ksize) 1)"

text \<open>
  OpenCV's morphology. With the default anchor, the centre of the kernel, the result at
  (x, y) is the maximum (dilation) or the minimum (erosion) of the source pixels at
  (x + x' - anchor.x, y + y' - anchor.y) over the positions (x', y') where the kernel is
  not zero. With the default border, positions outside the array take no part: \<open>window\<close>
  lists the pixels that do. Arrays are taken to be of positive extent.
\<close>

definition window :: "u8 ndarray \<Rightarrow> u8 ndarray \<Rightarrow> nat \<Rightarrow> nat \<Rightarrow> u8 list" where
  "window src kern y x =
     (let (kh, kw) = np_shape kern;
          (ay, ax) = (kh div 2, kw div 2);
          (h, w) = np_shape src
      in concat (map (\<lambda>j. concat (map (\<lambda>i.
           if kern ! j ! i \<noteq> 0 \<and> ay \<le> y + j \<and> y + j < h + ay \<and> ax \<le> x + i \<and> x + i < w + ax
           then [src ! (y + j - ay) ! (x + i - ax)] else [])
         [0..<kw])) [0..<kh]))"

definition cv2_dilate :: "u8 ndarray \<Rightarrow> u8 ndarray \<Rightarrow> u8 ndarray" where
  "cv2_dilate src kern =
     (let (h, w) = np_shape src in
      map (\<lambda>y. map (\<lambda>x. fold max (window src kern y x) 0) [0..<w]) [0..<h])"

definition cv2_erode :: "u8 ndarray \<Rightarrow> u8 ndarray \<Rightarrow> u8 ndarray" where
  "cv2_erode src kern =
     (let (h, w) = np_shape src in
      map (\<lambda>y. map (\<lambda>x. fold min (window src kern y x) 255) [0..<w]) [0..<h])"

definition dilate :: "u8 ndarray \<Rightarrow> nat \<Rightarrow> u8 ndarray" where
  "dilate arr val = (let kern = getStructuringElement_RECT (val, val) in cv2_dilate arr kern)"

definition erode :: "u8 ndarray \<Rightarrow> nat \<Rightarrow> u8 ndarray" where
  "erode arr val = (let kern = getStructuringElement_RECT (val, val) in cv2_erode arr kern)"

definition dilate_erode :: "mask \<Rightarrow> int \<Rightarrow> mask" where
  "dilate_erode img val =
     (if val = 0 then img
      else let arr = np_array img;
               arr' = (if 0 < val then dilate arr (nat val) else erode arr (nat (- val)))
           in fromarray arr')"

text \<open>\<^verbatim>\<open>cv2.countNonZero\<close>, and the test for a mask that has vanished.\<close>

definition countNonZero :: "u8 ndarray \<Rightarrow> nat" where
  "countNonZero arr = sum_list (map (\<lambda>r. length (filter (\<lambda>p. p \<noteq> 0) r)) arr)"

definition is_all_black :: "mask \<Rightarrow> bool" where
  "is_all_black img = (let arr = np_array img in countNonZero arr = 0)"

text \<open>
  Pillow's \<^verbatim>\<open>ImageChops.offset(image, xoffset, yoffset)\<close> returns a copy of the image
  whose data has been moved by the given distances and wraps around the edges: the pixel
  at (x, y) of the result is the pixel of the image at \<open>(x - xoffset) mod width\<close> and
  \<open>(y - yoffset) mod height\<close>.
\<close>

definition ImageChops_offset :: "'p image \<Rightarrow> int \<Rightarrow> int \<Rightarrow> 'p image" where
  "ImageChops_offset im xoffset yoffset =
     (let (w, h) = size_im im in
      im\<lparr>rows :=
           map (\<lambda>y. map (\<lambda>x.
                  rows im ! nat ((int y - yoffset) mod int h) ! nat ((int x - xoffset) mod int w))
                [0..<w]) [0..<h]\<rparr>)"

definition offset :: "'p image \<Rightarrow> int \<Rightarrow> int \<Rightarrow> 'p image" where
  "offset img x y = ImageChops_offset img x (- y)"

section \<open>Joint selection\<close>

text \<open>
  The result of an operation holds the bounding boxes and the masks of one list of
  positions of its input, so that the two sequences stay paired.
\<close>

definition same_selection :: "'f PredictOutput \<Rightarrow> 'f PredictOutput \<Rightarrow> bool" where
  "same_selection pred pred' \<longleftrightarrow>
     length (bboxes pred') = length (masks pred') \<and>
     (\<exists>idx. list_all (\<lambda>i. i < length (bboxes pred)) idx \<and>
        bboxes pred' = map (\<lambda>i. bboxes pred ! i) idx \<and>
        masks pred' = map (\<lambda>i. masks pred ! i) idx)"

text \<open>
  The ratio that \<^verbatim>\<open>is_in_ratio\<close> compares with the bounds: the area of the bounding
  box divided by the original area, as the float arithmetic computes them.
\<close>

definition area_ratio :: "'f float_ops \<Rightarrow> nat \<Rightarrow> 'f bbox \<Rightarrow> 'f" where
  "area_ratio fl orig_area bbox =
     float_truediv fl (bbox_area fl bbox) (float_of_int fl (int orig_area))"

section \<open>Example inputs\<close>

text \<open>
  The operations without rounding, on the reals. They are the arithmetic of the doubles
  wherever the exact result is a double, as it is for the subtractions, products and
  quotients of the examples below, whose operands are small integers and halves. (The
  distances \<open>sqrt (1/2)\<close> and \<open>sqrt (5/4)\<close> of the third example are rounded by the
  doubles, which leaves their order with 1 as it is.)
\<close>

definition exact_ops :: "real float_ops" where
  "exact_ops =
     \<lparr>float_add = (\<lambda>a b. a + b), float_sub = (\<lambda>a b. a - b), float_mul = (\<lambda>a b. a * b),
      float_truediv = (\<lambda>a b. a / b), float_neg = (\<lambda>a. - a),
      float_of_int = real_of_int, int_truediv = (\<lambda>a b. real_of_int a / real_of_int b),
      math_dist = (\<lambda>p q. sqrt ((fst p - fst q)\<^sup>2 + (snd p - snd q)\<^sup>2))\<rparr>"

text \<open>
  Two 1x1 masks, and four detections on a reference image of extent 4x2: their areas
  are 4, 1, 4 and 2, so two of them tie.
\<close>

definition black :: mask where "black = \<lparr>size_im = (1, 1), rows = [[0]]\<rparr>"
definition white :: mask where "white = \<lparr>size_im = (1, 1), rows = [[255]]\<rparr>"

definition ex_preview :: "rgb image" where
  "ex_preview = \<lparr>size_im = (4, 2), rows = [replicate 4 (0, 0, 0), replicate 4 (0, 0, 0)]\<rparr>"

definition m0 :: mask where "m0 = \<lparr>size_im = (4, 2), rows = [[255, 255, 0, 0], [255, 255, 0, 0]]\<rparr>"
definition m1 :: mask where "m1 = \<lparr>size_im = (4, 2), rows = [[0, 255, 0, 0], [0, 0, 0, 0]]\<rparr>"
definition m2 :: mask where "m2 = \<lparr>size_im = (4, 2), rows = [[0, 0, 255, 255], [0, 0, 255, 255]]\<rparr>"
definition m3 :: mask where "m3 = \<lparr>size_im = (4, 2), rows = [[0, 0, 0, 0], [255, 255, 0, 0]]\<rparr>"

definition ex_pred :: "real PredictOutput" where
  "ex_pred = \<lparr>bboxes = [(0, 0, 2, 2), (1, 0, 2, 1), (2, 0, 4, 2), (0, 1, 2, 2)],
     masks = [m0, m1, m2, m3], confidences = [3/4, 1/2, 1/4, 1/8], preview = Some ex_preview\<rparr>"


section \<open>Subtraction wraps around\<close>

text \<open>
  C1. The spec says that every pixel of \<open>subtract(a, b)\<close> is
  \<open>clamp(a_pixel - b_pixel, 0, 255)\<close> with exact integer subtraction, so that a 0 pixel
  minus a 255 pixel gives 0. The code subtracts in \<^verbatim>\<open>uint8\<close>: on the 1x1 masks
  with pixels 0 and 255 the result pixel is 1, where the clamped exact difference is 0.
\<close>

theorem subtract_masks_wraps:
  "subtract_masks \<lparr>size_im = (1, 1), rows = [[0]]\<rparr> \<lparr>size_im = (1, 1), rows = [[255]]\<rparr>
     = Inr \<lparr>size_im = (1, 1), rows = [[1]]\<rparr>
   \<and> clamp_spec (uint (0 :: u8) - uint (255 :: u8)) = 0"
  by (simp add: subtract_masks_def np_subtract_def np_binary_def np_shape_def
      broadcast_dim_def np_clip_def np_array_def fromarray_def clamp_spec_def)

section \<open>Auxiliary facts\<close>

lemmas SortBy_defs =
  SortBy_NONE_def SortBy_LEFT_TO_RIGHT_def SortBy_CENTER_TO_EDGE_def SortBy_AREA_def

lemmas MergeInvert_defs =
  MergeInvert_NONE_def MergeInvert_MERGE_def MergeInvert_MERGE_INVERT_def
  MergeInvert_SUBTRACT_def

subsection \<open>Indexing\<close>

lemma getitems_map:
  "list_all (\<lambda>i. i < length xs) idx \<Longrightarrow> getitems xs idx = Inr (map (\<lambda>i. xs ! i) idx)"
  by (induction idx) auto

lemma getitems_Inr:
  "getitems xs idx = Inr ys \<Longrightarrow> list_all (\<lambda>i. i < length xs) idx \<and> ys = map (\<lambda>i. xs ! i) idx"
  by (induction idx arbitrary: ys) (auto split: if_splits sum.splits)

lemma select_items_Inr:
  "select_items pred idx = Inr pred' \<Longrightarrow>
     list_all (\<lambda>i. i < length (bboxes pred)) idx \<and>
     list_all (\<lambda>i. i < length (masks pred)) idx \<and>
     pred' = pred\<lparr>bboxes := map (\<lambda>i. bboxes pred ! i) idx, masks := map (\<lambda>i. masks pred ! i) idx\<rparr>"
  by (auto simp: select_items_def split: sum.splits dest: getitems_Inr)

lemma select_items_ok:
  "list_all (\<lambda>i. i < length (bboxes pred)) idx \<Longrightarrow> list_all (\<lambda>i. i < length (masks pred)) idx \<Longrightarrow>
   select_items pred idx =
     Inr (pred\<lparr>bboxes := map (\<lambda>i. bboxes pred ! i) idx, masks := map (\<lambda>i. masks pred ! i) idx\<rparr>)"
  by (simp add: select_items_def getitems_map)

lemma select_items_frame:
  "select_items pred idx = Inr pred' \<Longrightarrow>
     confidences pred' = confidences pred \<and> preview pred' = preview pred"
  by (drule select_items_Inr) simp

lemma list_index_absent: "s \<notin> set xs \<Longrightarrow> list_index xs s = Inl ValueError"
  by (induction xs) auto

lemma select_idx_filter:
  "(\<And>i. i \<in> set idx \<Longrightarrow> p i = Inr (q i)) \<Longrightarrow> select_idx p idx = Inr (filter q idx)"
  by (induction idx) auto

lemma map_nth_filter_upt:
  "map (\<lambda>i. xs ! i) (filter (\<lambda>i. P (xs ! i)) [0..<length xs]) = filter P xs"
proof -
  have "filter P xs = filter P (map (\<lambda>i. xs ! i) [0..<length xs])"
    by (simp add: map_nth)
  also have "\<dots> = map (\<lambda>i. xs ! i) (filter (\<lambda>i. P (xs ! i)) [0..<length xs])"
    by (simp add: filter_map comp_def)
  finally show ?thesis by simp
qed

lemma zip_map_nth:
  "list_all (\<lambda>i. i < length xs) idx \<Longrightarrow> list_all (\<lambda>i. i < length ys) idx \<Longrightarrow>
   zip (map (\<lambda>i. xs ! i) idx) (map (\<lambda>i. ys ! i) idx) = map (\<lambda>i. zip xs ys ! i) idx"
  by (induction idx) auto

subsection \<open>Sorting positions\<close>

lemma stable_pairs:
  assumes len: "length ys = length xs"
  shows "filter (\<lambda>(b, m). key b = v)
      (zip (map (\<lambda>i. xs ! i) (sort_key (\<lambda>i. key (xs ! i)) [0..<length xs]))
           (map (\<lambda>i. ys ! i) (sort_key (\<lambda>i. key (xs ! i)) [0..<length xs])))
    = filter (\<lambda>(b, m). key b = v) (zip xs ys)"
proof -
  let ?k = "\<lambda>i. key (xs ! i)"
  let ?idx = "sort_key ?k [0..<length xs]"
  let ?zs = "zip xs ys"
  let ?P = "\<lambda>(b, m). key b = v"
  have n: "length ?zs = length xs"
    using len by simp
  have in_range: "list_all (\<lambda>i. i < length xs) ?idx" "list_all (\<lambda>i. i < length ys) ?idx"
    using len by (simp_all add: list_all_iff)
  have "filter ?P (zip (map (\<lambda>i. xs ! i) ?idx) (map (\<lambda>i. ys ! i) ?idx))
      = filter ?P (map (\<lambda>i. ?zs ! i) ?idx)"
    by (simp only: zip_map_nth [OF in_range])
  also have "\<dots> = map (\<lambda>i. ?zs ! i) (filter (\<lambda>i. ?P (?zs ! i)) ?idx)"
    by (simp add: filter_map comp_def)
  also have "filter (\<lambda>i. ?P (?zs ! i)) ?idx = filter (\<lambda>i. ?k i = v) ?idx"
    using len by (intro filter_cong) auto
  also have "\<dots> = filter (\<lambda>i. ?k i = v) [0..<length xs]"
    by (rule sort_key_stable)
  also have "\<dots> = filter (\<lambda>i. ?P (?zs ! i)) [0..<length ?zs]"
    unfolding n using len by (intro filter_cong) auto
  also have "map (\<lambda>i. ?zs ! i) \<dots> = filter ?P ?zs"
    by (rule map_nth_filter_upt)
  finally show ?thesis .
qed

lemma sorted_map_nth_sort_key:
  "sorted (map key (map (\<lambda>i. xs ! i) (sort_key (\<lambda>i. key (xs ! i)) [0..<length xs])))"
  using sorted_sort_key [of "\<lambda>i. key (xs ! i)" "[0..<length xs]"]
  by (simp add: comp_def)

lemma is_argsort_perm:
  assumes "is_argsort areas idx"
  shows "mset idx = mset [0..<length areas]" and "set idx = {0..<length areas}"
    and "length idx = length areas"
proof -
  have s: "sort idx = [0..<length areas]"
    using assms by (simp add: is_argsort_def)
  show "mset idx = mset [0..<length areas]"
    using arg_cong [OF s, of mset] by (simp del: mset_upt)
  show "set idx = {0..<length areas}"
    using arg_cong [OF s, of set] by simp
  show "length idx = length areas"
    using arg_cong [OF s, of length] by simp
qed

lemma stable_argsort_is_argsort: "is_argsort areas (stable_argsort areas)"
  unfolding is_argsort_def stable_argsort_def
proof
  have "mset (sort (sort_key (\<lambda>i. areas ! i) [0..<length areas])) = mset [0..<length areas]"
    by (simp del: mset_upt)
  then show "sort (sort_key (\<lambda>i. areas ! i) [0..<length areas]) = [0..<length areas]"
    by (intro properties_for_sort) simp_all
  show "sorted (map (\<lambda>i. areas ! i) (sort_key (\<lambda>i. areas ! i) [0..<length areas]))"
    by (rule sorted_sort_key)
qed

lemma mset_zip_map_nth:
  assumes len: "length ys = length xs" and perm: "mset idx = mset [0..<length xs]"
  shows "mset (zip (map (\<lambda>i. xs ! i) idx) (map (\<lambda>i. ys ! i) idx)) = mset (zip xs ys)"
proof -
  let ?zs = "zip xs ys"
  have "set idx = set [0..<length xs]"
    using perm by (rule mset_eq_setD)
  then have in_range: "list_all (\<lambda>i. i < length xs) idx" "list_all (\<lambda>i. i < length ys) idx"
    using len by (simp_all add: list_all_iff)
  have "mset (zip (map (\<lambda>i. xs ! i) idx) (map (\<lambda>i. ys ! i) idx)) = mset (map (\<lambda>i. ?zs ! i) idx)"
    by (simp only: zip_map_nth [OF in_range])
  also have "\<dots> = image_mset (\<lambda>i. ?zs ! i) (mset idx)"
    by simp
  also have "\<dots> = image_mset (\<lambda>i. ?zs ! i) (mset [0..<length ?zs])"
    using perm len by simp
  also have "\<dots> = mset (map (\<lambda>i. ?zs ! i) [0..<length ?zs])"
    by (simp del: mset_upt)
  also have "\<dots> = mset ?zs"
    by (simp only: map_nth)
  finally show ?thesis .
qed

lemma sorted_le_last:
  "sorted xs \<Longrightarrow> x \<in> set xs \<Longrightarrow> x \<le> last xs"
  by (induction xs) (auto split: if_splits)

subsection \<open>What each operation returns\<close>

lemma filter_by_ratio_result:
  assumes len: "length (masks pred) = length (bboxes pred)"
    and pv: "preview pred = Some img" and sz: "size_im img = (w, h)" and pos: "0 < w * h"
  shows "filter_by_ratio fl pred low high =
     Inr (pred\<lparr>bboxes := map (\<lambda>i. bboxes pred ! i)
                 (filter (\<lambda>i. low \<le> area_ratio fl (w * h) (bboxes pred ! i) \<and>
                    area_ratio fl (w * h) (bboxes pred ! i) \<le> high) [0..<length (bboxes pred)]),
               masks := map (\<lambda>i. masks pred ! i)
                 (filter (\<lambda>i. low \<le> area_ratio fl (w * h) (bboxes pred ! i) \<and>
                    area_ratio fl (w * h) (bboxes pred ! i) \<le> high) [0..<length (bboxes pred)])\<rparr>)"
    (is "_ = Inr (pred\<lparr>bboxes := map _ ?idx, masks := _\<rparr>)")
proof (cases "bboxes pred = []")
  case True
  with len show ?thesis by (simp add: filter_by_ratio_def)
next
  case False
  have sel: "select_idx (\<lambda>i. is_in_ratio fl (bboxes pred ! i) low high (w * h)) [0..<length (bboxes pred)]
      = Inr ?idx"
    using pos by (intro select_idx_filter) (simp add: is_in_ratio_def area_ratio_def Let_def)
  have in_range: "list_all (\<lambda>i. i < length (bboxes pred)) ?idx"
    by (simp add: list_all_iff)
  then have "select_items pred ?idx = Inr (pred\<lparr>bboxes := map (\<lambda>i. bboxes pred ! i) ?idx,
      masks := map (\<lambda>i. masks pred ! i) ?idx\<rparr>)"
    using len by (intro select_items_ok) simp_all
  with False pv sz sel show ?thesis
    by (simp add: filter_by_ratio_def)
qed

lemma filter_by_ratio_cases:
  "filter_by_ratio fl pred low high = Inr pred' \<Longrightarrow>
     pred' = pred \<or> (\<exists>idx. select_items pred idx = Inr pred')"
  by (auto simp: filter_by_ratio_def Let_def split: if_splits option.splits sum.splits prod.splits)

lemma filter_k_largest_cases:
  "filter_k_largest fl np_argsort pred k = Inr pred' \<Longrightarrow>
     pred' = pred \<or> (\<exists>idx. select_items pred idx = Inr pred')"
  by (auto simp: filter_k_largest_def Let_def split: if_splits)

lemma sort_bboxes_cases:
  "sort_bboxes fl pred order = Inr pred' \<Longrightarrow>
     pred' = pred \<or> (\<exists>idx. select_items pred idx = Inr pred')"
  by (auto simp: SortBy_defs sort_bboxes_def Let_def split: if_splits sum.splits)

lemma same_selection_refl:
  assumes "length (bboxes pred) = length (masks pred)"
  shows "same_selection pred pred"
proof -
  let ?idx = "[0..<length (bboxes pred)]"
  have "list_all (\<lambda>i. i < length (bboxes pred)) ?idx"
    by (simp add: list_all_iff)
  moreover have "bboxes pred = map (\<lambda>i. bboxes pred ! i) ?idx"
    by (simp add: map_nth)
  moreover have "masks pred = map (\<lambda>i. masks pred ! i) ?idx"
    by (simp add: assms map_nth)
  ultimately show ?thesis
    unfolding same_selection_def using assms by blast
qed

lemma same_selection_select_items:
  "select_items pred idx = Inr pred' \<Longrightarrow> same_selection pred pred'"
  unfolding same_selection_def
  by (drule select_items_Inr) auto

lemma select_key_ok:
  assumes "order \<in> {SortBy_LEFT_TO_RIGHT, SortBy_CENTER_TO_EDGE, SortBy_AREA}"
    and "order = SortBy_CENTER_TO_EDGE \<longrightarrow> preview pred \<noteq> None"
  shows "\<exists>key. select_key fl pred order = Inr key"
  using assms by (auto simp: SortBy_defs select_key_def split: option.splits prod.splits)

lemma sort_bboxes_result:
  assumes len: "length (masks pred) = length (bboxes pred)"
    and key: "select_key fl pred order = Inr key"
    and many: "1 < length (bboxes pred)"
  shows "sort_bboxes fl pred order =
     Inr (pred\<lparr>bboxes := map (\<lambda>i. bboxes pred ! i)
                 (sort_key (\<lambda>i. key (bboxes pred ! i)) [0..<length (bboxes pred)]),
               masks := map (\<lambda>i. masks pred ! i)
                 (sort_key (\<lambda>i. key (bboxes pred ! i)) [0..<length (bboxes pred)])\<rparr>)"
proof -
  let ?idx = "sort_key (\<lambda>i. key (bboxes pred ! i)) [0..<length (bboxes pred)]"
  have order: "order \<noteq> SortBy_NONE"
    using key by (auto simp: SortBy_defs select_key_def split: if_splits)
  have "list_all (\<lambda>i. i < length (bboxes pred)) ?idx"
    by (simp add: list_all_iff)
  then have "select_items pred ?idx = Inr (pred\<lparr>bboxes := map (\<lambda>i. bboxes pred ! i) ?idx,
      masks := map (\<lambda>i. masks pred ! i) ?idx\<rparr>)"
    using len by (intro select_items_ok) simp_all
  with order key many show ?thesis
    by (simp add: SortBy_defs sort_bboxes_def py_sorted_def)
qed

lemma filter_k_largest_result:
  assumes arg: "is_argsort (map (bbox_area fl) (bboxes pred)) (np_argsort (map (bbox_area fl) (bboxes pred)))"
    and len: "length (masks pred) = length (bboxes pred)"
    and k: "0 < k"
  shows "filter_k_largest fl np_argsort pred k =
     Inr (pred\<lparr>bboxes := map (\<lambda>i. bboxes pred ! i)
                 (drop (length (bboxes pred) - nat k) (np_argsort (map (bbox_area fl) (bboxes pred)))),
               masks := map (\<lambda>i. masks pred ! i)
                 (drop (length (bboxes pred) - nat k) (np_argsort (map (bbox_area fl) (bboxes pred))))\<rparr>)"
proof -
  let ?idx = "np_argsort (map (bbox_area fl) (bboxes pred))"
  let ?kept = "drop (length (bboxes pred) - nat k) ?idx"
  have n: "length ?idx = length (bboxes pred)" and s: "set ?idx = {0..<length (bboxes pred)}"
    using is_argsort_perm [OF arg] by simp_all
  have "set ?kept \<subseteq> {0..<length (bboxes pred)}"
    using s set_drop_subset [of "length (bboxes pred) - nat k" ?idx] by simp
  then have in_range: "list_all (\<lambda>i. i < length (bboxes pred)) ?kept"
    by (auto simp: list_all_iff)
  then have sel: "select_items pred ?kept = Inr (pred\<lparr>bboxes := map (\<lambda>i. bboxes pred ! i) ?kept,
      masks := map (\<lambda>i. masks pred ! i) ?kept\<rparr>)"
    using len by (intro select_items_ok) simp_all
  show ?thesis
  proof (cases "bboxes pred = []")
    case True
    then have "?idx = []"
      using n by simp
    with True len show ?thesis
      by (simp add: filter_k_largest_def)
  next
    case False
    with k sel n show ?thesis
      by (simp add: filter_k_largest_def last_k_def Let_def)
  qed
qed

subsection \<open>The operations on the example\<close>

lemma ex_filter_by_ratio:
  "filter_by_ratio exact_ops ex_pred (1/2) (1/2) = Inr (ex_pred\<lparr>bboxes := [(0, 0, 2, 2), (2, 0, 4, 2)], masks := [m0, m2]\<rparr>)"
  by (simp add: filter_by_ratio_def ex_pred_def ex_preview_def is_in_ratio_def select_items_def
      exact_ops_def upt_rec)

lemma ex_sort_area:
  "sort_bboxes exact_ops ex_pred SortBy_AREA = Inr (ex_pred\<lparr>bboxes := [(0, 0, 2, 2), (2, 0, 4, 2), (0, 1, 2, 2), (1, 0, 2, 1)], masks := [m0, m2, m3, m1]\<rparr>)"
  by (simp add: SortBy_defs sort_bboxes_def select_key_def key_area_def py_sorted_def ex_pred_def
      select_items_def exact_ops_def upt_rec)

lemma ex_sort_left:
  "sort_bboxes exact_ops ex_pred SortBy_LEFT_TO_RIGHT = Inr (ex_pred\<lparr>bboxes := [(0, 0, 2, 2), (0, 1, 2, 2), (1, 0, 2, 1), (2, 0, 4, 2)], masks := [m0, m3, m1, m2]\<rparr>)"
  by (simp add: SortBy_defs sort_bboxes_def select_key_def py_sorted_def ex_pred_def
      select_items_def upt_rec)

lemma ex_sort_center:
  "sort_bboxes exact_ops ex_pred SortBy_CENTER_TO_EDGE = Inr (ex_pred\<lparr>bboxes := [(1, 0, 2, 1), (0, 0, 2, 2), (2, 0, 4, 2), (0, 1, 2, 2)], masks := [m1, m0, m2, m3]\<rparr>)"
  by (simp add: SortBy_defs sort_bboxes_def select_key_def py_sorted_def ex_pred_def
      ex_preview_def select_items_def exact_ops_def upt_rec power2_eq_square)

lemma ex_stable_argsort: "stable_argsort [4, 1, 4, 2 :: real] = [1, 3, 0, 2]"
  by (simp add: stable_argsort_def upt_rec)

lemma ex_top_3:
  "filter_k_largest exact_ops stable_argsort ex_pred 3 = Inr (ex_pred\<lparr>bboxes := [(0, 1, 2, 2), (0, 0, 2, 2), (2, 0, 4, 2)], masks := [m3, m0, m2]\<rparr>)"
  by (simp add: filter_k_largest_def ex_pred_def last_k_def ex_stable_argsort select_items_def
      exact_ops_def)

lemma ex_top_4:
  "filter_k_largest exact_ops stable_argsort ex_pred 4 = Inr (ex_pred\<lparr>bboxes := [(1, 0, 2, 1), (0, 1, 2, 2), (0, 0, 2, 2), (2, 0, 4, 2)], masks := [m1, m3, m0, m2]\<rparr>)"
  by (simp add: filter_k_largest_def ex_pred_def last_k_def ex_stable_argsort select_items_def
      exact_ops_def)

subsection \<open>Images as arrays\<close>

lemma wf_rows_eq:
  assumes "wf_image m" and "size_im m = (w, h)"
  shows "rows m = map (\<lambda>y. map (\<lambda>x. rows m ! y ! x) [0..<w]) [0..<h]"
proof (rule nth_equalityI)
  show "length (rows m) = length (map (\<lambda>y. map (\<lambda>x. rows m ! y ! x) [0..<w]) [0..<h])"
    using assms by (simp add: wf_image_def)
next
  fix y assume y: "y < length (rows m)"
  then have "length (rows m ! y) = w"
    using assms by (simp add: wf_image_def list_all_length)
  then have "rows m ! y = map (\<lambda>x. rows m ! y ! x) [0..<w]"
    by (intro nth_equalityI) simp_all
  moreover have "y < h"
    using y assms by (simp add: wf_image_def)
  ultimately show "rows m ! y = map (\<lambda>y. map (\<lambda>x. rows m ! y ! x) [0..<w]) [0..<h] ! y"
    by simp
qed

lemma np_shape_wf:
  assumes "wf_image m" and "size_im m = (w, h)" and "0 < h"
  shows "np_shape (rows m) = (h, w)"
proof -
  obtain r rs where "rows m = r # rs"
    using assms by (cases "rows m") (auto simp: wf_image_def)
  then show ?thesis
    using assms by (simp add: np_shape_def wf_image_def)
qed

lemma np_shape_rect: "0 < k \<Longrightarrow> np_shape (getStructuringElement_RECT (k, k)) = (k, k)"
  by (cases k) (simp_all add: np_shape_def getStructuringElement_RECT_def)

subsection \<open>Wrapping positions\<close>

lemma wrap_back:
  fixes n :: nat and i :: nat and d :: int
  assumes "i < n"
  shows "nat ((int (nat ((int i - d) mod int n)) + d) mod int n) = i"
proof -
  have pos: "0 < int n"
    using assms by simp
  then have "int (nat ((int i - d) mod int n)) = (int i - d) mod int n"
    by simp
  then have "(int (nat ((int i - d) mod int n)) + d) mod int n = ((int i - d) mod int n + d) mod int n"
    by simp
  also have "\<dots> = (int i - d + d) mod int n"
    by (simp add: mod_add_left_eq)
  also have "\<dots> = int i"
    using assms by simp
  finally show ?thesis by simp
qed

lemma wrap_less:
  fixes n :: nat
  assumes "0 < n"
  shows "nat (a mod int n) < n"
  using assms by (simp add: nat_less_iff)

lemma offset_wf:
  "wf_image m \<Longrightarrow> wf_image (offset m dx dy)"
  by (auto simp: wf_image_def offset_def ImageChops_offset_def list_all_iff split: prod.splits)

lemma offset_size: "size_im (offset m dx dy) = size_im m"
  by (simp add: offset_def ImageChops_offset_def split: prod.splits)

lemma offset_nth:
  assumes "size_im m = (w, h)" and "y < h" and "x < w"
  shows "rows (offset m dx dy) ! y ! x
    = rows m ! nat ((int y + dy) mod int h) ! nat ((int x - dx) mod int w)"
  using assms by (simp add: offset_def ImageChops_offset_def)

lemma ex_offset:
  "offset m1 3 1 = \<lparr>size_im = (4, 2), rows = [[0, 0, 0, 0], [255, 0, 0, 0]]\<rparr>"
  by (simp add: m1_def offset_def ImageChops_offset_def upt_rec)

subsection \<open>Morphology\<close>

lemma le_fold_max:
  fixes x :: "'a :: linorder"
  assumes "x \<in> set xs"
  shows "x \<le> fold max xs a"
proof -
  have "x \<le> Max (set (a # xs))"
    using assms by (intro Max_ge) simp_all
  then show ?thesis
    by (simp only: Max.set_eq_fold)
qed

lemma fold_min_le:
  fixes x :: "'a :: linorder"
  assumes "x \<in> set xs"
  shows "fold min xs a \<le> x"
proof -
  have "Min (set (a # xs)) \<le> x"
    using assms by (intro Min_le) simp_all
  then show ?thesis
    by (simp only: Min.set_eq_fold)
qed

lemma in_concat_map:
  "c \<in> set xs \<Longrightarrow> x \<in> set (f c) \<Longrightarrow> x \<in> set (concat (map f xs))"
  by auto

lemma centre_in_window:
  assumes "np_shape src = (h, w)" and "0 < k" and "y < h" and "x < w"
  shows "src ! y ! x \<in> set (window src (getStructuringElement_RECT (k, k)) y x)"
proof -
  let ?c = "k div 2"
  have c: "?c \<in> set [0..<k]"
    using assms(2) by simp
  have one: "getStructuringElement_RECT (k, k) ! ?c ! ?c \<noteq> 0"
    using assms(2) by (simp add: getStructuringElement_RECT_def)
  have w: "window src (getStructuringElement_RECT (k, k)) y x =
      concat (map (\<lambda>j. concat (map (\<lambda>i.
           if getStructuringElement_RECT (k, k) ! j ! i \<noteq> 0 \<and>
              ?c \<le> y + j \<and> y + j < h + ?c \<and> ?c \<le> x + i \<and> x + i < w + ?c
           then [src ! (y + j - ?c) ! (x + i - ?c)] else [])
         [0..<k])) [0..<k])"
    by (simp only: window_def np_shape_rect [OF assms(2)] assms(1) Let_def prod.case)
  show ?thesis
    unfolding w
  proof (rule in_concat_map [OF c], rule in_concat_map [OF c])
    show "src ! y ! x \<in> set (if getStructuringElement_RECT (k, k) ! ?c ! ?c \<noteq> 0 \<and>
        ?c \<le> y + ?c \<and> y + ?c < h + ?c \<and> ?c \<le> x + ?c \<and> x + ?c < w + ?c
        then [src ! (y + ?c - ?c) ! (x + ?c - ?c)] else [])"
      using one assms(3,4) by simp
  qed
qed

lemma count_mono:
  assumes "\<And>y x. y < h \<Longrightarrow> x < w \<Longrightarrow> f y x \<noteq> (0 :: u8) \<Longrightarrow> g y x \<noteq> (0 :: u8)"
  shows "countNonZero (map (\<lambda>y. map (\<lambda>x. f y x) [0..<w]) [0..<h])
       \<le> countNonZero (map (\<lambda>y. map (\<lambda>x. g y x) [0..<w]) [0..<h])"
proof -
  have row: "length (filter (\<lambda>p. p \<noteq> 0) (map (\<lambda>x. f y x) [0..<w]))
      \<le> length (filter (\<lambda>p. p \<noteq> 0) (map (\<lambda>x. g y x) [0..<w]))" if "y < h" for y
  proof -
    have "length (filter (\<lambda>x. f y x \<noteq> 0) xs) \<le> length (filter (\<lambda>x. g y x \<noteq> 0) xs)"
      if "set xs \<subseteq> {0..<w}" for xs
      using that assms [OF \<open>y < h\<close>] by (induction xs) auto
    from this [of "[0..<w]"] show ?thesis
      by (simp add: filter_map comp_def)
  qed
  show ?thesis
    unfolding countNonZero_def map_map
    using row by (intro sum_list_mono) simp
qed

lemma morph_count:
  assumes "wf_image m" and "size_im m = (w, h)" and "0 < h" and "0 < k"
  shows "countNonZero (rows m) \<le> countNonZero (dilate (rows m) k)"
    and "countNonZero (erode (rows m) k) \<le> countNonZero (rows m)"
proof -
  let ?kern = "getStructuringElement_RECT (k, k)"
  have shape: "np_shape (rows m) = (h, w)"
    by (rule np_shape_wf [OF assms(1-3)])
  have r: "rows m = map (\<lambda>y. map (\<lambda>x. rows m ! y ! x) [0..<w]) [0..<h]"
    by (rule wf_rows_eq [OF assms(1,2)])
  have d: "dilate (rows m) k
      = map (\<lambda>y. map (\<lambda>x. fold max (window (rows m) ?kern y x) 0) [0..<w]) [0..<h]"
    by (simp add: dilate_def cv2_dilate_def shape)
  have e: "erode (rows m) k
      = map (\<lambda>y. map (\<lambda>x. fold min (window (rows m) ?kern y x) 255) [0..<w]) [0..<h]"
    by (simp add: erode_def cv2_erode_def shape)
  have "countNonZero (map (\<lambda>y. map (\<lambda>x. rows m ! y ! x) [0..<w]) [0..<h])
      \<le> countNonZero (map (\<lambda>y. map (\<lambda>x. fold max (window (rows m) ?kern y x) 0) [0..<w]) [0..<h])"
  proof (rule count_mono)
    fix y x assume "y < h" and "x < w" and nz: "rows m ! y ! x \<noteq> 0"
    then have "rows m ! y ! x \<le> fold max (window (rows m) ?kern y x) 0"
      by (intro le_fold_max centre_in_window [OF shape assms(4)])
    with nz show "fold max (window (rows m) ?kern y x) 0 \<noteq> 0"
      by auto
  qed
  then show "countNonZero (rows m) \<le> countNonZero (dilate (rows m) k)"
    using r d by simp
  have "countNonZero (map (\<lambda>y. map (\<lambda>x. fold min (window (rows m) ?kern y x) 255) [0..<w]) [0..<h])
      \<le> countNonZero (map (\<lambda>y. map (\<lambda>x. rows m ! y ! x) [0..<w]) [0..<h])"
  proof (rule count_mono)
    fix y x assume "y < h" and "x < w" and nz: "fold min (window (rows m) ?kern y x) 255 \<noteq> 0"
    then have "fold min (window (rows m) ?kern y x) 255 \<le> rows m ! y ! x"
      by (intro fold_min_le centre_in_window [OF shape assms(4)])
    with nz show "rows m ! y ! x \<noteq> 0"
      by auto
  qed
  then show "countNonZero (erode (rows m) k) \<le> countNonZero (rows m)"
    using r e by simp
qed

lemma ex_dilate:
  "dilate_erode m1 2 = \<lparr>size_im = (4, 2), rows = [[0, 255, 255, 0], [0, 255, 255, 0]]\<rparr>"
  by code_simp

lemma ex_erode:
  "dilate_erode m1 (- 2) = \<lparr>size_im = (4, 2), rows = [[0, 0, 0, 0], [0, 0, 0, 0]]\<rparr>"
  by code_simp

section \<open>Degenerate cases of merging\<close>

text \<open>
  C5. \<^verbatim>\<open>mask_merge_invert\<close> returns its mask list unchanged when the mode is
  \<^verbatim>\<open>NONE\<close> (0, or the alias that resolves to it), when the list is empty under any
  of the four recognised modes, and when the mode is \<^verbatim>\<open>SUBTRACT\<close> (3) and the
  list does not hold exactly two masks: that mismatch is not an error.
\<close>

theorem mask_merge_invert_degenerate:
  "(resolve_mode mode = Inr MergeInvert_NONE \<longrightarrow> mask_merge_invert ms mode = Inr ms) \<and>
   (resolve_mode mode = Inr m \<and> m \<in>
      {MergeInvert_NONE, MergeInvert_MERGE, MergeInvert_MERGE_INVERT, MergeInvert_SUBTRACT} \<longrightarrow> mask_merge_invert [] mode = Inr []) \<and>
   (resolve_mode mode = Inr MergeInvert_SUBTRACT \<and> length ms \<noteq> 2 \<longrightarrow> mask_merge_invert ms mode = Inr ms)"
  by (auto simp: MergeInvert_defs mask_merge_invert_def)

theorem mask_merge_invert_degenerate_witness:
  "mask_merge_invert [white, black, white] (ModeStr ''None'') = Inr [white, black, white] \<and>
   mask_merge_invert [] (ModeStr ''Merge and Invert'') = Inr [] \<and>
   mask_merge_invert [white, black, white] (ModeStr ''Subtract'') = Inr [white, black, white] \<and>
   mask_merge_invert [white, black, white] (ModeInt MergeInvert_SUBTRACT) = Inr [white, black, white]"
  using mask_merge_invert_degenerate [of "ModeStr ''None''" "[white, black, white]" MergeInvert_NONE]
    mask_merge_invert_degenerate [of "ModeStr ''Merge and Invert''" "[]" MergeInvert_MERGE_INVERT]
    mask_merge_invert_degenerate [of "ModeStr ''Subtract''" "[white, black, white]" MergeInvert_SUBTRACT]
    mask_merge_invert_degenerate [of "ModeInt MergeInvert_SUBTRACT" "[white, black, white]" MergeInvert_SUBTRACT]
  by (simp add: MASK_MERGE_INVERT_def MergeInvert_defs)

section \<open>Unrecognised orders and modes\<close>

text \<open>
  C2, as stated, says that an order outside 0..3 makes \<^verbatim>\<open>sort_bboxes\<close> fail and a
  mode outside 0..3 makes \<^verbatim>\<open>mask_merge_invert\<close> fail, on every input. Both functions
  test for the degenerate input first: with at most one bounding box the sort returns its
  argument whatever the order is, and with no mask the merge returns the empty list
  whatever the integer mode is.
\<close>

theorem invalid_enum_counterexample:
  "sort_bboxes exact_ops
       \<lparr>bboxes = [(0, 0, 10, 10)], masks = [white], confidences = [], preview = None\<rparr> 99
     = Inr \<lparr>bboxes = [(0, 0, 10, 10)], masks = [white], confidences = [], preview = None\<rparr>
   \<and> mask_merge_invert [] (ModeInt 99) = Inr []"
  by (simp add: SortBy_defs sort_bboxes_def MergeInvert_defs mask_merge_invert_def)

text \<open>
  C2, amended. With two bounding boxes or more an order outside 0..3 raises
  \<^verbatim>\<open>RuntimeError\<close>, and with at most one the input is returned; with a mask list
  that is not empty an integer mode outside 0..3 raises \<^verbatim>\<open>RuntimeError\<close>, and with
  the empty list the list is returned; a string that is not an alias raises
  \<^verbatim>\<open>ValueError\<close> on every mask list, the empty one included.
\<close>

theorem invalid_enum_fails:
  "(order \<notin> {SortBy_NONE, SortBy_LEFT_TO_RIGHT, SortBy_CENTER_TO_EDGE, SortBy_AREA} \<longrightarrow>
      sort_bboxes fl pred order = (if length (bboxes pred) \<le> 1 then Inr pred else Inl RuntimeError)) \<and>
   (m \<notin> {MergeInvert_NONE, MergeInvert_MERGE, MergeInvert_MERGE_INVERT, MergeInvert_SUBTRACT} \<longrightarrow>
      mask_merge_invert ms (ModeInt m) = (if ms = [] then Inr ms else Inl RuntimeError)) \<and>
   (s \<notin> set MASK_MERGE_INVERT \<longrightarrow> mask_merge_invert ms (ModeStr s) = Inl ValueError)"
  by (auto simp: SortBy_defs sort_bboxes_def select_key_def MergeInvert_defs mask_merge_invert_def list_index_absent)

theorem invalid_enum_fails_witness:
  "sort_bboxes exact_ops \<lparr>bboxes = [(0, 0, 10, 10), (5, 5, 15, 15)], masks = [white, black],
      confidences = [], preview = None\<rparr> 4 = Inl RuntimeError \<and>
   mask_merge_invert [white] (ModeInt (-1)) = Inl RuntimeError \<and>
   mask_merge_invert [white] (ModeStr ''merge'') = Inl ValueError"
  using invalid_enum_fails [of 4 exact_ops
      "\<lparr>bboxes = [(0, 0, 10, 10), (5, 5, 15, 15)], masks = [white, black],
        confidences = [], preview = None\<rparr>" "-1" "[white]" "''merge''"]
  by (simp add: MASK_MERGE_INVERT_def SortBy_defs MergeInvert_defs)

section \<open>Filtering by the area ratio\<close>

text \<open>
  C7. On a prediction with one mask for each bounding box and a preview of positive
  extent, \<^verbatim>\<open>filter_by_ratio\<close> returns, and keeps exactly the bounding boxes whose
  area divided by width times height, as the floats compute it, lies between \<open>low\<close>
  and \<open>high\<close>, both bounds included, each with its mask and in the original order.
\<close>

theorem filter_by_ratio_inclusive:
  assumes "length (masks pred) = length (bboxes pred)"
    and "preview pred = Some img" and "size_im img = (w, h)" and "0 < w * h"
  shows "\<exists>pred'. filter_by_ratio fl pred low high = Inr pred' \<and>
     bboxes pred' =
       filter (\<lambda>b. low \<le> area_ratio fl (w * h) b \<and> area_ratio fl (w * h) b \<le> high)
         (bboxes pred) \<and>
     zip (bboxes pred') (masks pred') =
       filter (\<lambda>(b, m). low \<le> area_ratio fl (w * h) b \<and> area_ratio fl (w * h) b \<le> high)
         (zip (bboxes pred) (masks pred)) \<and>
     length (masks pred') = length (bboxes pred')"
proof -
  let ?keep = "\<lambda>b. low \<le> area_ratio fl (w * h) b \<and> area_ratio fl (w * h) b \<le> high"
  let ?idx = "filter (\<lambda>i. ?keep (bboxes pred ! i)) [0..<length (bboxes pred)]"
  let ?zs = "zip (bboxes pred) (masks pred)"
  have res: "filter_by_ratio fl pred low high =
      Inr (pred\<lparr>bboxes := map (\<lambda>i. bboxes pred ! i) ?idx, masks := map (\<lambda>i. masks pred ! i) ?idx\<rparr>)"
    by (rule filter_by_ratio_result [OF assms])
  have b: "map (\<lambda>i. bboxes pred ! i) ?idx = filter ?keep (bboxes pred)"
    by (rule map_nth_filter_upt)
  have in_range: "list_all (\<lambda>i. i < length (bboxes pred)) ?idx"
    "list_all (\<lambda>i. i < length (masks pred)) ?idx"
    using assms(1) by (simp_all add: list_all_iff)
  have z1: "zip (map (\<lambda>i. bboxes pred ! i) ?idx) (map (\<lambda>i. masks pred ! i) ?idx)
      = map (\<lambda>i. ?zs ! i) ?idx"
    by (rule zip_map_nth [OF in_range])
  have z2: "?idx = filter (\<lambda>i. (\<lambda>(b, m). ?keep b) (?zs ! i)) [0..<length ?zs]"
    using assms(1) by (intro filter_cong) auto
  have z3: "map (\<lambda>i. ?zs ! i) (filter (\<lambda>i. (\<lambda>(b, m). ?keep b) (?zs ! i)) [0..<length ?zs])
      = filter (\<lambda>(b, m). ?keep b) ?zs"
    by (rule map_nth_filter_upt)
  have z: "zip (map (\<lambda>i. bboxes pred ! i) ?idx) (map (\<lambda>i. masks pred ! i) ?idx)
      = filter (\<lambda>(b, m). ?keep b) ?zs"
    by (rule trans [OF z1 trans [OF arg_cong [where f = "map (\<lambda>i. ?zs ! i)", OF z2] z3]])
  have l: "length ?idx = length (filter ?keep (bboxes pred))"
    using arg_cong [OF b, of length] by simp
  show ?thesis
    unfolding res using b z l by simp
qed

theorem filter_by_ratio_inclusive_witness:
  "\<exists>pred'. filter_by_ratio exact_ops ex_pred (1/2) (1/2) = Inr pred' \<and>
     bboxes pred' = [(0, 0, 2, 2), (2, 0, 4, 2)] \<and>
     zip (bboxes pred') (masks pred') = [((0, 0, 2, 2), m0), ((2, 0, 4, 2), m2)] \<and>
     length (masks pred') = length (bboxes pred')"
  using filter_by_ratio_inclusive [of ex_pred ex_preview 4 2 exact_ops "1/2" "1/2"]
  by (simp add: ex_pred_def ex_preview_def area_ratio_def exact_ops_def)

section \<open>Bounding boxes and masks stay paired\<close>

text \<open>
  C8. On a prediction with as many masks as bounding boxes, whatever
  \<^verbatim>\<open>filter_by_ratio\<close>, \<^verbatim>\<open>filter_k_largest\<close> and \<^verbatim>\<open>sort_bboxes\<close> return
  has as many masks as bounding boxes, and both sequences are the input's at one and
  the same list of positions.
\<close>

theorem joint_operations_keep_alignment:
  assumes "length (bboxes pred) = length (masks pred)"
  shows "(filter_by_ratio fl pred low high = Inr p1 \<longrightarrow> same_selection pred p1) \<and>
         (filter_k_largest fl np_argsort pred k = Inr p2 \<longrightarrow> same_selection pred p2) \<and>
         (sort_bboxes fl pred order = Inr p3 \<longrightarrow> same_selection pred p3)"
  using assms
  by (auto dest!: filter_by_ratio_cases filter_k_largest_cases sort_bboxes_cases
      intro: same_selection_refl same_selection_select_items)

theorem joint_operations_keep_alignment_witness:
  "same_selection ex_pred (ex_pred\<lparr>bboxes := [(0, 0, 2, 2), (2, 0, 4, 2)], masks := [m0, m2]\<rparr>) \<and>
   same_selection ex_pred
     (ex_pred\<lparr>bboxes := [(0, 1, 2, 2), (0, 0, 2, 2), (2, 0, 4, 2)], masks := [m3, m0, m2]\<rparr>) \<and>
   same_selection ex_pred
     (ex_pred\<lparr>bboxes := [(0, 0, 2, 2), (2, 0, 4, 2), (0, 1, 2, 2), (1, 0, 2, 1)],
        masks := [m0, m2, m3, m1]\<rparr>)"
  using joint_operations_keep_alignment [of ex_pred exact_ops "1/2" "1/2" _ stable_argsort 3 _
      SortBy_AREA]
    ex_filter_by_ratio ex_top_3 ex_sort_area
  by (simp add: ex_pred_def)

section \<open>The fields the operations leave alone\<close>

text \<open>
  C10. \<^verbatim>\<open>filter_by_ratio\<close>, \<^verbatim>\<open>filter_k_largest\<close> and \<^verbatim>\<open>sort_bboxes\<close>
  change the bounding boxes and the masks only: the confidences and the preview of the
  result are the input's. So when a filter drops a detection, the confidences keep their
  length and are no longer as many as the bounding boxes.
\<close>

theorem operations_frame:
  "(filter_by_ratio fl pred low high = Inr p1 \<longrightarrow>
      confidences p1 = confidences pred \<and> preview p1 = preview pred) \<and>
   (filter_k_largest fl np_argsort pred k = Inr p2 \<longrightarrow>
      confidences p2 = confidences pred \<and> preview p2 = preview pred) \<and>
   (sort_bboxes fl pred order = Inr p3 \<longrightarrow>
      confidences p3 = confidences pred \<and> preview p3 = preview pred) \<and>
   (length (confidences pred) = length (bboxes pred) \<and>
    (filter_by_ratio fl pred low high = Inr p4 \<or> filter_k_largest fl np_argsort pred k = Inr p4) \<and>
    length (bboxes p4) < length (bboxes pred) \<longrightarrow>
      length (confidences p4) = length (bboxes pred) \<and>
      length (confidences p4) \<noteq> length (bboxes p4))"
  by (auto dest!: filter_by_ratio_cases filter_k_largest_cases sort_bboxes_cases
      dest: select_items_frame)

theorem operations_frame_witness:
  "confidences (ex_pred\<lparr>bboxes := [(0, 0, 2, 2), (2, 0, 4, 2)], masks := [m0, m2]\<rparr>)
     = [3/4, 1/2, 1/4, 1/8] \<and>
   preview (ex_pred\<lparr>bboxes := [(0, 1, 2, 2), (0, 0, 2, 2), (2, 0, 4, 2)], masks := [m3, m0, m2]\<rparr>)
     = Some ex_preview \<and>
   confidences (ex_pred\<lparr>bboxes := [(0, 0, 2, 2), (2, 0, 4, 2), (0, 1, 2, 2), (1, 0, 2, 1)],
        masks := [m0, m2, m3, m1]\<rparr>) = [3/4, 1/2, 1/4, 1/8] \<and>
   length (confidences (ex_pred\<lparr>bboxes := [(0, 0, 2, 2), (2, 0, 4, 2)], masks := [m0, m2]\<rparr>)) = 4 \<and>
   length (bboxes (ex_pred\<lparr>bboxes := [(0, 0, 2, 2), (2, 0, 4, 2)], masks := [m0, m2]\<rparr>)) = 2"
  using operations_frame [of exact_ops ex_pred "1/2" "1/2" _ stable_argsort 3 _ SortBy_AREA _
      "ex_pred\<lparr>bboxes := [(0, 0, 2, 2), (2, 0, 4, 2)], masks := [m0, m2]\<rparr>"]
    ex_filter_by_ratio ex_top_3 ex_sort_area
  by (simp add: ex_pred_def)

section \<open>Sorting is stable\<close>

text \<open>
  C4. For each of the orders \<^verbatim>\<open>LEFT_TO_RIGHT\<close> (1), \<^verbatim>\<open>CENTER_TO_EDGE\<close> (2)
  and \<^verbatim>\<open>AREA\<close> (3), on a prediction with one mask for each bounding box (and a
  preview, which order 2 reads), and for every float arithmetic, \<^verbatim>\<open>sort_bboxes\<close>
  returns the detections in ascending order of the key it computed, and it is stable: for
  every key value, the detections whose computed key is that value come in the order
  they had in the input.
\<close>

theorem sort_bboxes_stable:
  assumes "order \<in> {SortBy_LEFT_TO_RIGHT, SortBy_CENTER_TO_EDGE, SortBy_AREA}"
    and "length (masks pred) = length (bboxes pred)"
    and "order = SortBy_CENTER_TO_EDGE \<longrightarrow> preview pred \<noteq> None"
  shows "\<exists>key pred'.
     select_key fl pred order = Inr key \<and> sort_bboxes fl pred order = Inr pred' \<and>
     sorted (map key (bboxes pred')) \<and>
     (\<forall>v. filter (\<lambda>(b, m). key b = v) (zip (bboxes pred') (masks pred'))
          = filter (\<lambda>(b, m). key b = v) (zip (bboxes pred) (masks pred)))"
proof -
  obtain key where key: "select_key fl pred order = Inr key"
    using select_key_ok [OF assms(1) assms(3)] by blast
  show ?thesis
  proof (cases "1 < length (bboxes pred)")
    case True
    show ?thesis
      unfolding sort_bboxes_result [OF assms(2) key True] key
      using stable_pairs [OF assms(2), of key] sorted_map_nth_sort_key [of key "bboxes pred"]
      by simp
  next
    case False
    then have "sort_bboxes fl pred order = Inr pred"
      by (simp add: SortBy_defs sort_bboxes_def)
    moreover have "sorted (map key (bboxes pred))"
      using False by (cases "bboxes pred") auto
    ultimately show ?thesis
      using key by simp
  qed
qed

theorem sort_bboxes_stable_witness:
  "(\<exists>key pred'. select_key exact_ops ex_pred SortBy_AREA = Inr key \<and>
      sort_bboxes exact_ops ex_pred SortBy_AREA = Inr pred' \<and>
      sorted (map key (bboxes pred')) \<and>
      (\<forall>v. filter (\<lambda>(b, m). key b = v) (zip (bboxes pred') (masks pred'))
           = filter (\<lambda>(b, m). key b = v) (zip (bboxes ex_pred) (masks ex_pred))) \<and>
      bboxes pred' = [(0, 0, 2, 2), (2, 0, 4, 2), (0, 1, 2, 2), (1, 0, 2, 1)] \<and>
      masks pred' = [m0, m2, m3, m1]) \<and>
   (\<exists>key pred'. select_key exact_ops ex_pred SortBy_CENTER_TO_EDGE = Inr key \<and>
      sort_bboxes exact_ops ex_pred SortBy_CENTER_TO_EDGE = Inr pred' \<and>
      sorted (map key (bboxes pred')) \<and>
      masks pred' = [m1, m0, m2, m3]) \<and>
   (\<exists>key pred'. select_key exact_ops ex_pred SortBy_LEFT_TO_RIGHT = Inr key \<and>
      sort_bboxes exact_ops ex_pred SortBy_LEFT_TO_RIGHT = Inr pred' \<and>
      sorted (map key (bboxes pred')) \<and>
      masks pred' = [m0, m3, m1, m2])"
proof -
  have len: "length (masks ex_pred) = length (bboxes ex_pred)"
    and pv: "preview ex_pred \<noteq> None"
    by (simp_all add: ex_pred_def)
  show ?thesis
    using sort_bboxes_stable [of SortBy_AREA ex_pred exact_ops, OF _ len]
      sort_bboxes_stable [of SortBy_CENTER_TO_EDGE ex_pred exact_ops, OF _ len]
      sort_bboxes_stable [of SortBy_LEFT_TO_RIGHT ex_pred exact_ops, OF _ len]
      pv ex_sort_area ex_sort_center ex_sort_left
    by (auto simp: SortBy_defs)
qed

section \<open>Keeping the largest detections\<close>

text \<open>
  C3, as stated, says that \<^verbatim>\<open>filter_k_largest\<close> returns the detections strictly
  ascending by area, and that for \<open>0 < k < len(bboxes)\<close> the \<open>k\<close>-th largest comes
  last. On the example, whose areas are 4, 1, 4 and 2, \<open>k = 4\<close> returns the areas
  1, 2, 4, 4, which are not strictly ascending, and \<open>k = 3\<close> returns 2, 4, 4: the last
  area is 4, the largest, where the third largest is 2. Neither depends on how the
  argsort orders the two detections of area 4, and the areas are products of small
  integers, which the doubles compute without rounding.
\<close>

theorem filter_k_largest_counterexample:
  "filter_k_largest exact_ops stable_argsort ex_pred 4 =
     Inr (ex_pred\<lparr>bboxes := [(1, 0, 2, 1), (0, 1, 2, 2), (0, 0, 2, 2), (2, 0, 4, 2)],
            masks := [m1, m3, m0, m2]\<rparr>) \<and>
   \<not> sorted_wrt (<)
       (map (bbox_area exact_ops) [(1, 0, 2, 1), (0, 1, 2, 2), (0, 0, 2, 2), (2, 0, 4, 2)]) \<and>
   filter_k_largest exact_ops stable_argsort ex_pred 3 =
     Inr (ex_pred\<lparr>bboxes := [(0, 1, 2, 2), (0, 0, 2, 2), (2, 0, 4, 2)], masks := [m3, m0, m2]\<rparr>) \<and>
   bbox_area exact_ops (last [(0, 1, 2, 2), (0, 0, 2, 2), (2, 0, 4, 2)]) = 4 \<and>
   rev (sort (map (bbox_area exact_ops) (bboxes ex_pred))) ! 2 = 2"
  using ex_top_3 ex_top_4 by (simp add: ex_pred_def exact_ops_def)

text \<open>
  C3, amended. For \<open>k > 0\<close>, on a prediction with one mask for each bounding box, and
  for any argsort and any float arithmetic, with the areas as that arithmetic computes
  them, \<^verbatim>\<open>filter_k_largest\<close> returns: it keeps \<open>min(k, len(bboxes))\<close>
  positions and drops the others, bounding boxes and masks at the same positions; the
  result is ascending by area, equal areas allowed; no dropped detection has a larger
  area than a kept one; the last detection has the largest area of all (so the \<open>k\<close>-th
  largest comes first); and for \<open>k \<ge> len(bboxes)\<close> the result is a permutation of all
  the detections.
\<close>

theorem filter_k_largest_ascending:
  assumes "is_argsort (map (bbox_area fl) (bboxes pred))
      (np_argsort (map (bbox_area fl) (bboxes pred)))"
    and "length (masks pred) = length (bboxes pred)"
    and "0 < k"
  shows "\<exists>pred' dropped kept.
     filter_k_largest fl np_argsort pred k = Inr pred' \<and>
     mset (dropped @ kept) = mset [0..<length (bboxes pred)] \<and>
     length kept = min (length (bboxes pred)) (nat k) \<and>
     bboxes pred' = map (\<lambda>i. bboxes pred ! i) kept \<and>
     masks pred' = map (\<lambda>i. masks pred ! i) kept \<and>
     sorted (map (bbox_area fl) (bboxes pred')) \<and>
     (\<forall>i \<in> set dropped. \<forall>j \<in> set kept.
        bbox_area fl (bboxes pred ! i) \<le> bbox_area fl (bboxes pred ! j)) \<and>
     (\<forall>b \<in> set (bboxes pred). bbox_area fl b \<le> bbox_area fl (last (bboxes pred'))) \<and>
     (int (length (bboxes pred)) \<le> k \<longrightarrow>
        mset (zip (bboxes pred') (masks pred')) = mset (zip (bboxes pred) (masks pred)))"
proof -
  let ?bs = "bboxes pred"
  let ?n = "length ?bs"
  let ?areas = "map (bbox_area fl) ?bs"
  let ?idx = "np_argsort ?areas"
  let ?dropped = "take (?n - nat k) ?idx"
  let ?kept = "drop (?n - nat k) ?idx"
  let ?pred' = "pred\<lparr>bboxes := map (\<lambda>i. ?bs ! i) ?kept, masks := map (\<lambda>i. masks pred ! i) ?kept\<rparr>"
  have perm: "mset ?idx = mset [0..<?n]" and s: "set ?idx = {0..<?n}" and n: "length ?idx = ?n"
    using is_argsort_perm [OF assms(1)] by simp_all
  have srt: "sorted (map (\<lambda>i. ?areas ! i) ?idx)"
    using assms(1) by (simp add: is_argsort_def)
  have kept_range: "\<And>j. j \<in> set ?kept \<Longrightarrow> j < ?n"
    using s by (auto dest: in_set_dropD)
  have dropped_range: "\<And>i. i \<in> set ?dropped \<Longrightarrow> i < ?n"
    using s by (auto dest: in_set_takeD)
  have split: "map (\<lambda>i. ?areas ! i) ?idx
      = map (\<lambda>i. ?areas ! i) ?dropped @ map (\<lambda>i. ?areas ! i) ?kept"
    by (simp flip: map_append)
  have areas_kept: "map (bbox_area fl) (map (\<lambda>i. ?bs ! i) ?kept) = map (\<lambda>i. ?areas ! i) ?kept"
    using kept_range by simp
  have 1: "filter_k_largest fl np_argsort pred k = Inr ?pred'"
    using assms by (rule filter_k_largest_result [where np_argsort = np_argsort and pred = pred and fl = fl])
  have 2: "mset (?dropped @ ?kept) = mset [0..<?n]"
    using perm by simp
  have 3: "length ?kept = min ?n (nat k)"
    using n by auto
  have 4: "sorted (map (bbox_area fl) (bboxes ?pred'))"
    using srt unfolding split by (simp add: sorted_append areas_kept del: map_map)
  have 5: "\<forall>i \<in> set ?dropped. \<forall>j \<in> set ?kept. bbox_area fl (?bs ! i) \<le> bbox_area fl (?bs ! j)"
  proof (intro ballI)
    fix i j assume i: "i \<in> set ?dropped" and j: "j \<in> set ?kept"
    have "?areas ! i \<le> ?areas ! j"
      using srt i j unfolding split by (auto simp: sorted_append)
    then show "bbox_area fl (?bs ! i) \<le> bbox_area fl (?bs ! j)"
      using dropped_range [OF i] kept_range [OF j] by simp
  qed
  have 6: "\<forall>b \<in> set ?bs. bbox_area fl b \<le> bbox_area fl (last (bboxes ?pred'))"
  proof
    fix b assume "b \<in> set ?bs"
    then obtain i where i: "i < ?n" and b: "b = ?bs ! i"
      by (auto simp: in_set_conv_nth)
    have ne: "?kept \<noteq> []"
      using i n assms(3) by auto
    then have last_in: "last ?kept \<in> set ?kept"
      by (rule last_in_set)
    have last_eq: "bbox_area fl (last (bboxes ?pred')) = bbox_area fl (?bs ! last ?kept)"
      using ne by (simp add: last_map)
    have "i \<in> set ?idx"
      using i s by simp
    then have "i \<in> set (?dropped @ ?kept)"
      by (simp only: append_take_drop_id)
    then have "i \<in> set ?dropped \<union> set ?kept"
      by (simp only: set_append)
    then show "bbox_area fl b \<le> bbox_area fl (last (bboxes ?pred'))"
    proof
      assume "i \<in> set ?dropped"
      with 5 last_in show ?thesis
        unfolding last_eq b by blast
    next
      assume ik: "i \<in> set ?kept"
      have "bbox_area fl (?bs ! i) \<in> set (map (bbox_area fl) (bboxes ?pred'))"
        using ik by auto
      from sorted_le_last [OF 4 this] show ?thesis
        using ne by (simp add: b last_map)
    qed
  qed
  have 7: "int ?n \<le> k \<longrightarrow> mset (zip (bboxes ?pred') (masks ?pred')) = mset (zip ?bs (masks pred))"
  proof
    assume "int ?n \<le> k"
    then have "?kept = ?idx"
      by simp
    then show "mset (zip (bboxes ?pred') (masks ?pred')) = mset (zip ?bs (masks pred))"
      using mset_zip_map_nth [OF assms(2) perm] by simp
  qed
  show ?thesis
    using 1 2 3 4 5 6 7 by (intro exI [of _ ?pred'] exI [of _ ?dropped] exI [of _ ?kept]) simp
qed

theorem filter_k_largest_ascending_witness:
  "is_argsort (map (bbox_area exact_ops) (bboxes ex_pred))
     (stable_argsort (map (bbox_area exact_ops) (bboxes ex_pred))) \<and>
   length (masks ex_pred) = length (bboxes ex_pred) \<and>
   (\<exists>pred'. filter_k_largest exact_ops stable_argsort ex_pred 3 = Inr pred' \<and>
      sorted (map (bbox_area exact_ops) (bboxes pred')) \<and>
      map (bbox_area exact_ops) (bboxes pred') = [2, 4, 4] \<and>
      masks pred' = [m3, m0, m2])"
proof -
  have a: "is_argsort (map (bbox_area exact_ops) (bboxes ex_pred))
      (stable_argsort (map (bbox_area exact_ops) (bboxes ex_pred)))"
    by (rule stable_argsort_is_argsort)
  have b: "length (masks ex_pred) = length (bboxes ex_pred)"
    by (simp add: ex_pred_def)
  have c: "(0::int) < 3"
    by simp
  from filter_k_largest_ascending [where np_argsort = stable_argsort and pred = ex_pred
      and fl = exact_ops, OF a b c]
  obtain pred' where "filter_k_largest exact_ops stable_argsort ex_pred 3 = Inr pred'"
    and "sorted (map (bbox_area exact_ops) (bboxes pred'))"
    by blast
  then show ?thesis
    using a b ex_top_3 by (auto simp: ex_pred_def exact_ops_def)
qed

section \<open>The offset wraps around\<close>

text \<open>
  C6. On a well-formed image of positive extent, \<^verbatim>\<open>offset\<close> by (0, 0) returns the
  image; for all integers \<open>dx\<close> and \<open>dy\<close>, the offset by \<open>(dx, dy)\<close> followed by the
  offset by \<open>(-dx, -dy)\<close> returns the image; and the shift is toroidal, so that no pixel
  is lost: the pixel at column \<open>x\<close> and row \<open>y\<close> is found at column \<open>(x + dx) mod width\<close>
  and row \<open>(y - dy) mod height\<close> of the result.
\<close>

theorem offset_toroidal:
  assumes "wf_image m" and "size_im m = (w, h)" and "0 < w" and "0 < h"
  shows "offset m 0 0 = m \<and>
         offset (offset m dx dy) (- dx) (- dy) = m \<and>
         (\<forall>y < h. \<forall>x < w.
            rows (offset m dx dy) ! nat ((int y - dy) mod int h) ! nat ((int x + dx) mod int w)
              = rows m ! y ! x)"
proof (intro conjI allI impI)
  have r: "rows m = map (\<lambda>y. map (\<lambda>x. rows m ! y ! x) [0..<w]) [0..<h]"
    by (rule wf_rows_eq [OF assms(1,2)])
  have "rows (offset m 0 0) = map (\<lambda>y. map (\<lambda>x. rows m ! y ! x) [0..<w]) [0..<h]"
    using assms(2) by (simp add: offset_def ImageChops_offset_def)
  then have "rows (offset m 0 0) = rows m"
    using r by simp
  then show "offset m 0 0 = m"
    using offset_size [of m 0 0] by simp
next
  let ?m' = "offset m dx dy"
  have r: "rows m = map (\<lambda>y. map (\<lambda>x. rows m ! y ! x) [0..<w]) [0..<h]"
    by (rule wf_rows_eq [OF assms(1,2)])
  have s': "size_im ?m' = (w, h)"
    using assms(2) by (simp add: offset_size)
  have "rows (offset ?m' (- dx) (- dy))
      = map (\<lambda>y. map (\<lambda>x. rows ?m' ! nat ((int y - dy) mod int h) ! nat ((int x + dx) mod int w))
          [0..<w]) [0..<h]"
    using s' by (simp add: offset_def ImageChops_offset_def)
  also have "\<dots> = map (\<lambda>y. map (\<lambda>x. rows m ! y ! x) [0..<w]) [0..<h]"
  proof (intro map_cong refl)
    fix y x assume "y \<in> set [0..<h]" and "x \<in> set [0..<w]"
    then have y: "y < h" and x: "x < w"
      by simp_all
    have "rows ?m' ! nat ((int y - dy) mod int h) ! nat ((int x + dx) mod int w)
        = rows m ! nat ((int (nat ((int y - dy) mod int h)) + dy) mod int h)
                 ! nat ((int (nat ((int x + dx) mod int w)) - dx) mod int w)"
      using assms(3,4) by (intro offset_nth [OF assms(2)] wrap_less)
    also have "nat ((int (nat ((int y - dy) mod int h)) + dy) mod int h) = y"
      by (rule wrap_back [OF y])
    also have "nat ((int (nat ((int x + dx) mod int w)) - dx) mod int w) = x"
      using wrap_back [OF x, of "- dx"] by simp
    finally show "rows ?m' ! nat ((int y - dy) mod int h) ! nat ((int x + dx) mod int w)
        = rows m ! y ! x" .
  qed
  finally have "rows (offset ?m' (- dx) (- dy)) = rows m"
    using r by simp
  moreover have "size_im (offset ?m' (- dx) (- dy)) = size_im m"
    by (simp add: offset_size)
  ultimately show "offset ?m' (- dx) (- dy) = m"
    by simp
next
  fix y x assume y: "y < h" and x: "x < w"
  have "rows (offset m dx dy) ! nat ((int y - dy) mod int h) ! nat ((int x + dx) mod int w)
      = rows m ! nat ((int (nat ((int y - dy) mod int h)) + dy) mod int h)
               ! nat ((int (nat ((int x + dx) mod int w)) - dx) mod int w)"
    using assms(3,4) by (intro offset_nth [OF assms(2)] wrap_less)
  also have "nat ((int (nat ((int y - dy) mod int h)) + dy) mod int h) = y"
    by (rule wrap_back [OF y])
  also have "nat ((int (nat ((int x + dx) mod int w)) - dx) mod int w) = x"
    using wrap_back [OF x, of "- dx"] by simp
  finally show "rows (offset m dx dy) ! nat ((int y - dy) mod int h) ! nat ((int x + dx) mod int w)
      = rows m ! y ! x" .
qed

theorem offset_toroidal_witness:
  "wf_image m1 \<and> size_im m1 = (4, 2) \<and>
   offset m1 0 0 = m1 \<and>
   offset \<lparr>size_im = (4, 2), rows = [[0, 0, 0, 0], [255, 0, 0, 0]]\<rparr> (- 3) (- 1) = m1 \<and>
   rows \<lparr>size_im = (4, 2), rows = [[0, 0, 0, 0], [255, 0, 0, 0 :: u8]]\<rparr> ! 1 ! 0 = rows m1 ! 0 ! 1"
proof -
  have wf: "wf_image m1" and sz: "size_im m1 = (4, 2)"
    by (simp_all add: m1_def wf_image_def)
  from offset_toroidal [OF wf sz, of 3 1] show ?thesis
    using wf sz by (simp add: ex_offset) (simp add: m1_def)
qed

section \<open>Dilation grows and erosion shrinks\<close>

text \<open>
  C9. For a mask of the data model, \<^verbatim>\<open>dilate_erode\<close> with the value 0 returns the
  mask; with a positive value the result has at least as many pixels that are not zero
  as the mask; with a negative value it has at most as many.
\<close>

theorem dilate_erode_monotone:
  assumes "is_mask m"
  shows "dilate_erode m 0 = m \<and>
         (0 < val \<longrightarrow>
            countNonZero (np_array m) \<le> countNonZero (np_array (dilate_erode m val))) \<and>
         (val < 0 \<longrightarrow>
            countNonZero (np_array (dilate_erode m val)) \<le> countNonZero (np_array m))"
proof -
  obtain w h where sz: "size_im m = (w, h)"
    by (cases "size_im m")
  have wf: "wf_image m" and h: "0 < h"
    using assms sz by (simp_all add: is_mask_def)
  have "countNonZero (rows m) \<le> countNonZero (dilate (rows m) (nat val))" if "0 < val"
    using that by (intro morph_count [OF wf sz h]) simp
  moreover have "countNonZero (erode (rows m) (nat (- val))) \<le> countNonZero (rows m)" if "val < 0"
    using that by (intro morph_count [OF wf sz h]) simp
  ultimately show ?thesis
    by (simp add: dilate_erode_def np_array_def fromarray_def Let_def)
qed

theorem dilate_erode_monotone_witness:
  "is_mask m1 \<and> dilate_erode m1 0 = m1 \<and>
   countNonZero (np_array m1) = 1 \<and>
   countNonZero (np_array (dilate_erode m1 2)) = 4 \<and>
   countNonZero (np_array (dilate_erode m1 (- 2))) = 0"
proof -
  have mask: "is_mask m1"
    by (simp add: is_mask_def wf_image_def m1_def)
  from dilate_erode_monotone [OF mask, of 2] dilate_erode_monotone [OF mask, of "- 2"]
  show ?thesis
    using mask by (simp add: ex_dilate ex_erode countNonZero_def np_array_def) (simp add: m1_def)
qed

end
